theory Spec2Isabelle
  imports Main "HOL-Library.Word" "HOL-Library.Signed_Division" "HOL-Library.Log_Nat"
begin

section \<open>Data model\<close>

text \<open>
  The repository holds two variants of one Go program (both in \<^verbatim>\<open>main.go\<close>): a flat
  variant, whose inbound record carries the build as five strings, and a nested variant,
  whose inbound record carries a \<^verbatim>\<open>Build\<close> object. A Go \<^verbatim>\<open>string\<close> is a sequence of
  bytes, here a \<^typ>\<open>string\<close> (a list of 8-bit characters); text beyond ASCII is its UTF-8
  encoding. Go's \<^verbatim>\<open>int64\<close> is a \<^typ>\<open>64 word\<close> read through \<^const>\<open>sint\<close>, and Go's
  \<^verbatim>\<open>int\<close> is taken at its 64-bit width. Field names of different structs that coincide
  in Go carry the struct's name as a prefix here.
\<close>


text \<open>
  A decoded JSON value, for the fields the nested variant declares as \<^verbatim>\<open>any\<close>. The
  translator never reads them.
\<close>

datatype json_any =
  JNull
| JBool bool
| JNumber int
| JString string
| JArray "json_any list"
| JObject "(string \<times> json_any) list"

text \<open>The inbound records of the nested variant (\<^verbatim>\<open>type Build struct\<close> and
  \<^verbatim>\<open>type JenkinsWebhook struct\<close>, second file).\<close>

record Build =
  FullDisplayName :: string
  Number :: "64 word"
  QueueID :: "64 word"
  Timestamp :: "64 word"
  StartTimeMillis :: "64 word"
  Result :: string
  Duration :: "64 word"
  Build_URL :: string
  Builtby :: "json_any list"
  Actions :: "json_any list"
  Parameters :: "(string \<times> json_any) list"
  Cause :: string
  ChangeSets :: "json_any list"
  Culprits :: "json_any list"
  NextBuild :: json_any
  PreviousBuild :: json_any
  Phase :: string
  Status :: string

record JenkinsWebhook =
  Name :: string
  URL :: string
  Build :: Build
  DisplayName :: string

text \<open>The outbound records, the same in both variants.\<close>

record DiscordEmbedField =
  Field_Name :: string
  Field_Value :: string
  Inline :: bool

record DiscordEmbedFooter =
  Footer_Text :: string

record DiscordEmbed =
  Title :: string
  Description :: string
  Embed_URL :: string
  Color :: int
  Fields :: "DiscordEmbedField list"
  Embed_Timestamp :: string
  Footer :: "DiscordEmbedFooter option"

record DiscordWebhook =
  Content :: string
  Embeds :: "DiscordEmbed list"

section \<open>Status classification (nested variant)\<close>

text \<open>
  \<^verbatim>\<open>getStatusColor\<close>: a first \<^verbatim>\<open>switch result\<close> with four cases and no default, then
  a \<^verbatim>\<open>switch status\<close> that is reached whenever the first switch matched nothing.
\<close>

definition getStatusColor :: "string \<Rightarrow> string \<Rightarrow> int" where
  "getStatusColor result status =
     (if result = ''SUCCESS'' then 0x00FF00
      else if result = ''FAILURE'' then 0xFF0000
      else if result = ''UNSTABLE'' then 0xFFA500
      else if result = ''ABORTED'' then 0x808080
      else if status = ''STARTED'' then 0x0099FF
      else if status = ''COMPLETED'' then 0x00FF00
      else 0x808080)"

text \<open>The labels carry their emoji as UTF-8 bytes.\<close>

definition label_success :: string where
  "label_success = [CHR 0xE2, CHR 0x9C, CHR 0x85] @ '' Success''"

definition label_failure :: string where
  "label_failure = [CHR 0xE2, CHR 0x9D, CHR 0x8C] @ '' Failure''"

definition label_unstable :: string where
  "label_unstable = [CHR 0xE2, CHR 0x9A, CHR 0xA0, CHR 0xEF, CHR 0xB8, CHR 0x8F] @ '' Unstable''"

definition label_aborted :: string where
  "label_aborted = [CHR 0xF0, CHR 0x9F, CHR 0x9B, CHR 0x91] @ '' Aborted''"

definition label_started :: string where
  "label_started = [CHR 0xF0, CHR 0x9F, CHR 0x94, CHR 0x84] @ '' Started''"

definition label_completed :: string where
  "label_completed = [CHR 0xE2, CHR 0x9C, CHR 0x85] @ '' Completed''"

text \<open>
  \<^verbatim>\<open>getStatusText\<close>: the \<^verbatim>\<open>switch result\<close> stands under \<^verbatim>\<open>if result != ""\<close> and has a
  default that returns the result; the \<^verbatim>\<open>switch status\<close> is reached only for the empty
  result.
\<close>

definition getStatusText :: "string \<Rightarrow> string \<Rightarrow> string" where
  "getStatusText result status =
     (if result \<noteq> [] then
        (if result = ''SUCCESS'' then label_success
         else if result = ''FAILURE'' then label_failure
         else if result = ''UNSTABLE'' then label_unstable
         else if result = ''ABORTED'' then label_aborted
         else result)
      else if status = ''STARTED'' then label_started
      else if status = ''COMPLETED'' then label_completed
      else status)"

text \<open>The classification of the specification: the colour and the label of one build.\<close>

definition Classify :: "string \<Rightarrow> string \<Rightarrow> int \<times> string" where
  "Classify result status = (getStatusColor result status, getStatusText result status)"

section \<open>The Go string functions the flat variant calls\<close>

text \<open>
  The functions of package \<^verbatim>\<open>strings\<close> that \<^verbatim>\<open>formatBuildVars\<close> calls, on bytes as Go
  has them. \<^verbatim>\<open>strings.Trim\<close> with a cutset of ASCII bytes removes bytes of the cutset from
  the right end and then from the left end, one byte at a time, for as long as the byte at
  that end is in the cutset (\<^verbatim>\<open>trimLeftASCII(trimRightASCII(s, &as), &as)\<close>).
\<close>

definition trimRightASCII :: "string \<Rightarrow> string \<Rightarrow> string" where
  "trimRightASCII s cutset = rev (dropWhile (\<lambda>c. c \<in> set cutset) (rev s))"

definition trimLeftASCII :: "string \<Rightarrow> string \<Rightarrow> string" where
  "trimLeftASCII s cutset = dropWhile (\<lambda>c. c \<in> set cutset) s"

definition Trim :: "string \<Rightarrow> string \<Rightarrow> string" where
  "Trim s cutset =
     (if s = [] \<or> cutset = [] then s else trimLeftASCII (trimRightASCII s cutset) cutset)"

text \<open>
  \<^verbatim>\<open>strings.Index\<close>: the position of the first instance of the separator, \<^const>\<open>None\<close> for
  Go's \<open>-1\<close>.
\<close>

fun Index :: "string \<Rightarrow> string \<Rightarrow> nat option" where
  "Index [] sep = (if sep = [] then Some 0 else None)"
| "Index (c # s) sep =
     (if take (length sep) (c # s) = sep then Some 0 else map_option Suc (Index s sep))"

lemma Index_Some_bound: "Index s sep = Some m \<Longrightarrow> m + length sep \<le> length s"
proof (induction s arbitrary: m)
  case Nil
  then show ?case by (simp split: if_splits)
next
  case (Cons c s)
  show ?case
  proof (cases "take (length sep) (c # s) = sep")
    case True
    from arg_cong [OF True, of length] have "length sep \<le> length (c # s)"
      by simp
    with True Cons.prems show ?thesis by simp
  next
    case False
    with Cons.prems obtain k where "Index s sep = Some k" "m = Suc k" by auto
    with Cons.IH show ?thesis by fastforce
  qed
qed

lemma Index_Some_shorter:
  assumes "sep \<noteq> []" and "Index s sep = Some m"
  shows "length s - (m + length sep) < length s"
proof -
  from assms(1) have "0 < length sep" by simp
  with Index_Some_bound [OF assms(2)] show ?thesis by linarith
qed

text \<open>
  \<^verbatim>\<open>strings.Count\<close> for a non-empty separator: the number of non-overlapping instances,
  counted from the left. (For the empty separator Go counts runes; the program never
  passes it, and the equation below stops there with the byte count.)
\<close>

function Count :: "string \<Rightarrow> string \<Rightarrow> nat" where
  "Count s sep =
     (if sep = [] then length s + 1
      else case Index s sep of
             None \<Rightarrow> 0
           | Some i \<Rightarrow> Suc (Count (drop (i + length sep) s) sep))"
  by pat_completeness auto
termination
  by (relation "measure (\<lambda>(s, sep). length s)") (simp_all add: Index_Some_shorter)

text \<open>
  The loop of \<^verbatim>\<open>genSplit\<close>: up to \<open>n\<close> more cuts at the leftmost instance of the
  separator, then the rest of the string as the last piece.
\<close>

fun genSplit_loop :: "string \<Rightarrow> string \<Rightarrow> nat \<Rightarrow> string list" where
  "genSplit_loop s sep 0 = [s]"
| "genSplit_loop s sep (Suc n) =
     (case Index s sep of
        None \<Rightarrow> [s]
      | Some m \<Rightarrow> take m s # genSplit_loop (drop (m + length sep) s) sep n)"

text \<open>
  \<^verbatim>\<open>genSplit(s, sep, 0, n)\<close> for a non-empty separator: no piece for \<open>n = 0\<close>, every
  instance for a negative \<open>n\<close>, at most \<open>n\<close> pieces otherwise. (Go's branch for the empty
  separator, \<^verbatim>\<open>explode\<close>, is not reached by the program.)
\<close>

definition genSplit :: "string \<Rightarrow> string \<Rightarrow> int \<Rightarrow> string list" where
  "genSplit s sep n =
     (if n = 0 then []
      else let n1 = (if n < 0 then Count s sep + 1 else nat n);
               n2 = (if n1 > length s + 1 then length s + 1 else n1)
           in genSplit_loop s sep (n2 - 1))"

definition SplitN :: "string \<Rightarrow> string \<Rightarrow> int \<Rightarrow> string list" where
  "SplitN s sep n = genSplit s sep n"

definition Split :: "string \<Rightarrow> string \<Rightarrow> string list" where
  "Split s sep = genSplit s sep (- 1)"

text \<open>\<^verbatim>\<open>strings.Join\<close>.\<close>

fun Join :: "string list \<Rightarrow> string \<Rightarrow> string" where
  "Join [] sep = []"
| "Join [a] sep = a"
| "Join (a # b # elems) sep = a @ sep @ Join (b # elems) sep"

text \<open>
  \<^verbatim>\<open>strings.TrimSpace\<close> removes the white-space runes of \<^verbatim>\<open>unicode.IsSpace\<close> from both
  ends. In UTF-8 these are the six ASCII bytes tab, line feed, vertical tab, form feed,
  carriage return and space, the two-byte encodings of U+0085 and U+00A0, and the
  three-byte encodings of U+1680, U+2000 to U+200A, U+2028, U+2029, U+202F, U+205F and
  U+3000. A byte sequence that is not the UTF-8 encoding of one of them decodes to
  another rune or to the error rune, and stops the trimming.
\<close>

definition asciiSpace :: "char \<Rightarrow> bool" where
  "asciiSpace c = (c \<in> {CHR 0x09, CHR 0x0A, CHR 0x0B, CHR 0x0C, CHR 0x0D, CHR 0x20})"

definition spaceRunes2 :: "string list" where
  "spaceRunes2 = [[CHR 0xC2, CHR 0x85], [CHR 0xC2, CHR 0xA0]]"

definition spaceRunes3 :: "string list" where
  "spaceRunes3 =
     [[CHR 0xE1, CHR 0x9A, CHR 0x80],
      [CHR 0xE2, CHR 0x80, CHR 0x80], [CHR 0xE2, CHR 0x80, CHR 0x81],
      [CHR 0xE2, CHR 0x80, CHR 0x82], [CHR 0xE2, CHR 0x80, CHR 0x83],
      [CHR 0xE2, CHR 0x80, CHR 0x84], [CHR 0xE2, CHR 0x80, CHR 0x85],
      [CHR 0xE2, CHR 0x80, CHR 0x86], [CHR 0xE2, CHR 0x80, CHR 0x87],
      [CHR 0xE2, CHR 0x80, CHR 0x88], [CHR 0xE2, CHR 0x80, CHR 0x89],
      [CHR 0xE2, CHR 0x80, CHR 0x8A],
      [CHR 0xE2, CHR 0x80, CHR 0xA8], [CHR 0xE2, CHR 0x80, CHR 0xA9],
      [CHR 0xE2, CHR 0x80, CHR 0xAF], [CHR 0xE2, CHR 0x81, CHR 0x9F],
      [CHR 0xE3, CHR 0x80, CHR 0x80]]"

text \<open>
  The width in bytes of the white-space rune a string starts with (\<^verbatim>\<open>DecodeRuneInString\<close>
  followed by \<^verbatim>\<open>unicode.IsSpace\<close>), and of the one it ends with
  (\<^verbatim>\<open>DecodeLastRuneInString\<close>); 0 when the rune at that end is not white space.
\<close>

definition firstSpaceWidth :: "string \<Rightarrow> nat" where
  "firstSpaceWidth s =
     (if s = [] then 0
      else if asciiSpace (hd s) then 1
      else if 2 \<le> length s \<and> take 2 s \<in> set spaceRunes2 then 2
      else if 3 \<le> length s \<and> take 3 s \<in> set spaceRunes3 then 3
      else 0)"

definition lastSpaceWidth :: "string \<Rightarrow> nat" where
  "lastSpaceWidth s =
     (if s = [] then 0
      else if asciiSpace (last s) then 1
      else if 2 \<le> length s \<and> drop (length s - 2) s \<in> set spaceRunes2 then 2
      else if 3 \<le> length s \<and> drop (length s - 3) s \<in> set spaceRunes3 then 3
      else 0)"

lemma firstSpaceWidth_le: "firstSpaceWidth s \<le> length s"
  by (cases s) (simp_all add: firstSpaceWidth_def)

lemma lastSpaceWidth_le: "lastSpaceWidth s \<le> length s"
  by (cases s) (simp_all add: lastSpaceWidth_def)

function TrimLeftSpace :: "string \<Rightarrow> string" where
  "TrimLeftSpace s =
     (if firstSpaceWidth s = 0 then s else TrimLeftSpace (drop (firstSpaceWidth s) s))"
  by pat_completeness auto
termination
proof (relation "measure length")
  show "wf (measure length)" by simp
next
  fix s :: string
  assume "firstSpaceWidth s \<noteq> 0"
  with firstSpaceWidth_le [of s]
  show "(drop (firstSpaceWidth s) s, s) \<in> measure length" by simp
qed

function TrimRightSpace :: "string \<Rightarrow> string" where
  "TrimRightSpace s =
     (if lastSpaceWidth s = 0 then s
      else TrimRightSpace (take (length s - lastSpaceWidth s) s))"
  by pat_completeness auto
termination
proof (relation "measure length")
  show "wf (measure length)" by simp
next
  fix s :: string
  assume "lastSpaceWidth s \<noteq> 0"
  with lastSpaceWidth_le [of s]
  show "(take (length s - lastSpaceWidth s) s, s) \<in> measure length" by simp
qed

definition TrimSpace :: "string \<Rightarrow> string" where
  "TrimSpace s = TrimRightSpace (TrimLeftSpace s)"

section \<open>The build variables of the flat variant\<close>

text \<open>
  \<^verbatim>\<open>fmt.Sprintf("**%s**: %s", key, value)\<close> on the trimmed halves of one entry.
\<close>

definition formatVar :: "string \<Rightarrow> string \<Rightarrow> string" where
  "formatVar k v = ''**'' @ TrimSpace k @ ''**: '' @ TrimSpace v"

text \<open>
  The \<^verbatim>\<open>range\<close> loop of \<^verbatim>\<open>formatBuildVars\<close>: each entry is cut at its first \<^verbatim>\<open>=\<close>
  (\<^verbatim>\<open>strings.SplitN(v, "=", 2)\<close>), and appended to \<^verbatim>\<open>formatted\<close> when the cut gave two
  parts.
\<close>

fun formatLoop :: "string list \<Rightarrow> string list \<Rightarrow> string list" where
  "formatLoop [] formatted = formatted"
| "formatLoop (v # vars) formatted =
     (let parts = SplitN v ''='' 2
      in if length parts = 2
         then formatLoop vars (formatted @ [formatVar (parts ! 0) (parts ! 1)])
         else formatLoop vars formatted)"

definition formatBuildVars :: "string \<Rightarrow> string" where
  "formatBuildVars buildVars =
     (if buildVars = [] then []
      else let cleanVars = Trim buildVars ''{}''
           in if cleanVars = [] then []
              else let vars = Split cleanVars '', ''
                   in Join (formatLoop vars []) [CHR 0x0A])"

section \<open>Numbers and times as text\<close>

text \<open>
  The verb \<^verbatim>\<open>%d\<close> of \<^verbatim>\<open>fmt.Sprintf\<close>: the decimal digits of an integer, with a minus sign
  for a negative one.
\<close>

definition digit :: "int \<Rightarrow> char" where
  "digit d = ''0123456789'' ! nat d"

function decimal :: "int \<Rightarrow> string" where
  "decimal n = (if n < 10 then [digit n] else decimal (n div 10) @ [digit (n mod 10)])"
  by pat_completeness auto
termination
  by (relation "measure nat") simp_all

definition Sprintf_d :: "int \<Rightarrow> string" where
  "Sprintf_d x = (if x < 0 then ''-'' else []) @ decimal \<bar>x\<bar>"

text \<open>
  \<^verbatim>\<open>appendInt\<close> of package \<^verbatim>\<open>time\<close>: the decimal digits padded with zeros to a width, after
  the sign.
\<close>

definition appendInt :: "int \<Rightarrow> nat \<Rightarrow> string" where
  "appendInt x width =
     (if x < 0 then ''-'' else [])
     @ replicate (width - length (decimal \<bar>x\<bar>)) (CHR ''0'') @ decimal \<bar>x\<bar>"

text \<open>
  The date of a day, counted from 1 January 1970, in the proleptic Gregorian calendar with
  a year 0, which is what \<^verbatim>\<open>Time.Date\<close> returns: the year, the month and the day of the
  month. The day is located in its 400-year cycle of 146097 days, counted from 1 March
  of the year 0.
\<close>

definition civilDate :: "int \<Rightarrow> int \<times> int \<times> int" where
  "civilDate days =
     (let z = days + 719468;
          era = z div 146097;
          doe = z mod 146097;
          yoe = (doe - doe div 1460 + doe div 36524 - doe div 146096) div 365;
          doy = doe - (365 * yoe + yoe div 4 - yoe div 100);
          mp = (5 * doy + 2) div 153;
          d = doy - (153 * mp + 2) div 5 + 1;
          m = (if mp < 10 then mp + 3 else mp - 9);
          y = yoe + era * 400 + (if m \<le> 2 then 1 else 0)
      in (y, m, d))"

text \<open>
  \<^verbatim>\<open>time.Unix(sec, 0).Format(time.RFC3339)\<close>. The zone of the process, \<^verbatim>\<open>time.Local\<close>, is
  a parameter: the offset from UTC in seconds that the zone has at an instant. The layout
  prints the date and the clock of the shifted instant, then \<^verbatim>\<open>Z\<close> for the offset 0 and
  otherwise the sign, hours and minutes of the offset.
\<close>

type_synonym Location = "int \<Rightarrow> int"

definition UTC :: Location where
  "UTC = (\<lambda>sec. 0)"

definition Format_RFC3339 :: "Location \<Rightarrow> int \<Rightarrow> string" where
  "Format_RFC3339 loc sec =
     (let offset = loc sec;
          t = sec + offset;
          clock = t mod 86400;
          zone = offset sdiv 60
      in case civilDate (t div 86400) of (year, month, day) \<Rightarrow>
           appendInt year 4 @ ''-'' @ appendInt month 2 @ ''-'' @ appendInt day 2 @ ''T''
           @ appendInt (clock div 3600) 2 @ '':'' @ appendInt (clock mod 3600 div 60) 2
           @ '':'' @ appendInt (clock mod 60) 2
           @ (if offset = 0 then ''Z''
              else (if zone < 0 then ''-'' else ''+'')
                   @ appendInt (\<bar>zone\<bar> div 60) 2 @ '':'' @ appendInt (\<bar>zone\<bar> mod 60) 2))"

section \<open>Durations (nested variant)\<close>

text \<open>
  A \<^verbatim>\<open>float64\<close> that is finite is a rational number. The operations round their exact
  result to the nearest number with a 53-bit significand, ties to the even significand.
  The numbers that arise from a duration lie far inside the normal range (between
  \<open>2\<^sup>-\<^sup>4\<^sup>2\<close> and \<open>2\<^sup>3\<^sup>4\<close> in magnitude, or zero), so the exponent is not bounded here.
\<close>

type_synonym float64 = rat

definition roundEven :: "rat \<Rightarrow> int" where
  "roundEven x =
     (let f = \<lfloor>x\<rfloor>; r = x - of_int f
      in if r < 1 / 2 then f else if 1 / 2 < r then f + 1 else if even f then f else f + 1)"

text \<open>The exponent of a positive number: the \<open>e\<close> with \<open>2\<^sup>e \<le> x < 2\<^sup>e\<^sup>+\<^sup>1\<close>.\<close>

definition ilog2 :: "rat \<Rightarrow> int" where
  "ilog2 x = (if 1 \<le> x then bitlen \<lfloor>x\<rfloor> - 1 else - bitlen (\<lceil>1 / x\<rceil> - 1))"

definition f64_round :: "rat \<Rightarrow> float64" where
  "f64_round x =
     (if x = 0 then 0
      else let ulp = 2 powi (ilog2 \<bar>x\<bar> - 52)
           in sgn x * of_int (roundEven (\<bar>x\<bar> / ulp)) * ulp)"

definition f64_of_int :: "int \<Rightarrow> float64" where
  "f64_of_int n = f64_round (of_int n)"

definition f64_add :: "float64 \<Rightarrow> float64 \<Rightarrow> float64" where
  "f64_add x y = f64_round (x + y)"

definition f64_div :: "float64 \<Rightarrow> float64 \<Rightarrow> float64" where
  "f64_div x y = f64_round (x / y)"

text \<open>
  The verb \<^verbatim>\<open>%.1f\<close>: the decimal expansion of the number rounded to one digit after the
  point, ties to the even digit, with a minus sign for a negative number.
\<close>

definition Sprintf_1f :: "float64 \<Rightarrow> string" where
  "Sprintf_1f x =
     (let n = roundEven (\<bar>x\<bar> * 10)
      in (if x < 0 then ''-'' else []) @ decimal (n div 10) @ ''.'' @ decimal (n mod 10))"

text \<open>
  \<^verbatim>\<open>Duration.Hours\<close>, \<^verbatim>\<open>Duration.Minutes\<close> and \<^verbatim>\<open>Duration.Seconds\<close> of package \<^verbatim>\<open>time\<close>, on a
  duration in nanoseconds: the whole units and the remainder, by Go's truncating division
  of \<^verbatim>\<open>int64\<close>, are converted and added as \<^verbatim>\<open>float64\<close>.
\<close>

definition Hours :: "64 word \<Rightarrow> float64" where
  "Hours d =
     f64_add (f64_of_int (sint d sdiv 3600000000000))
             (f64_div (f64_of_int (sint d smod 3600000000000)) 3600000000000)"

definition Minutes :: "64 word \<Rightarrow> float64" where
  "Minutes d =
     f64_add (f64_of_int (sint d sdiv 60000000000))
             (f64_div (f64_of_int (sint d smod 60000000000)) 60000000000)"

definition Seconds :: "64 word \<Rightarrow> float64" where
  "Seconds d =
     f64_add (f64_of_int (sint d sdiv 1000000000))
             (f64_div (f64_of_int (sint d smod 1000000000)) 1000000000)"

text \<open>
  \<^verbatim>\<open>formatDuration\<close>. The product \<^verbatim>\<open>time.Duration(duration) * time.Millisecond\<close> is an
  \<^verbatim>\<open>int64\<close> product by 1000000 and wraps around.
\<close>

definition formatDuration :: "64 word \<Rightarrow> string" where
  "formatDuration duration =
     (if duration = 0 then ''N/A''
      else let d = duration * 1000000
           in if 1 \<le> Hours d then Sprintf_1f (Hours d) @ ''h''
              else if 1 \<le> Minutes d then Sprintf_1f (Minutes d) @ ''m''
              else Sprintf_1f (Seconds d) @ ''s'')"

section \<open>The translation\<close>

text \<open>
  \<^verbatim>\<open>convertToDiscordPayload\<close> of the nested variant. The methods read no field of their
  receiver, which is left out. The card's timestamp is
  \<^verbatim>\<open>time.Unix(jenkins.Build.Timestamp/1000, 0).Format(time.RFC3339)\<close>, with Go's truncating
  division of \<^verbatim>\<open>int64\<close>, rendered in the zone of the process.
\<close>

definition convertToDiscordPayload :: "Location \<Rightarrow> JenkinsWebhook \<Rightarrow> DiscordWebhook" where
  "convertToDiscordPayload loc jenkins =
     (let color = getStatusColor (Result (Build jenkins)) (Status (Build jenkins));
          timestamp = Format_RFC3339 loc (sint (Timestamp (Build jenkins)) sdiv 1000);
          duration = formatDuration (Duration (Build jenkins));
          fields =
            [\<lparr>Field_Name = ''Build Number'',
              Field_Value = ''#'' @ Sprintf_d (sint (Number (Build jenkins))),
              Inline = True\<rparr>,
             \<lparr>Field_Name = ''Status'',
              Field_Value = getStatusText (Result (Build jenkins)) (Status (Build jenkins)),
              Inline = True\<rparr>,
             \<lparr>Field_Name = ''Duration'', Field_Value = duration, Inline = True\<rparr>,
             \<lparr>Field_Name = ''Phase'', Field_Value = Phase (Build jenkins), Inline = True\<rparr>];
          fields1 =
            (if Cause (Build jenkins) \<noteq> []
             then fields @ [\<lparr>Field_Name = ''Cause'', Field_Value = Cause (Build jenkins),
                             Inline = False\<rparr>]
             else fields);
          embed =
            \<lparr>Title = DisplayName jenkins @ '' - Build #''
                       @ Sprintf_d (sint (Number (Build jenkins))),
             Description = FullDisplayName (Build jenkins),
             Embed_URL = Build_URL (Build jenkins),
             Color = color,
             Fields = fields1,
             Embed_Timestamp = timestamp,
             Footer = Some \<lparr>Footer_Text = ''Jenkins CI/CD''\<rparr>\<rparr>
      in \<lparr>Content = [], Embeds = [embed]\<rparr>)"









text \<open>
  The sample payload of the repository's README for the nested variant, and a payload of
  the flat variant, as inputs for the examples.
\<close>

definition sampleBuild :: Build where
  "sampleBuild =
     \<lparr>FullDisplayName = ''My Project #42'', Number = 42, QueueID = 123,
      Timestamp = 1642584000000, StartTimeMillis = 1642584000000, Result = ''SUCCESS'',
      Duration = 125000, Build_URL = ''http://jenkins.example.com/job/my-project/42/'',
      Builtby = [], Actions = [], Parameters = [], Cause = ''Started by user admin'',
      ChangeSets = [], Culprits = [], NextBuild = JNull, PreviousBuild = JNull,
      Phase = ''COMPLETED'', Status = ''SUCCESS''\<rparr>"

definition sampleEvent :: JenkinsWebhook where
  "sampleEvent =
     \<lparr>Name = ''my-project'', URL = ''http://jenkins.example.com/job/my-project/'',
      Build = sampleBuild, DisplayName = ''My Project''\<rparr>"



text \<open>
  The words of the specification for one entry of the build variables, to compare the loop
  with: an entry survives when it contains \<^verbatim>\<open>=\<close>; its key is what stands before the first
  \<^verbatim>\<open>=\<close>, its value what stands after it.
\<close>

definition hasEq :: "string \<Rightarrow> bool" where
  "hasEq e = (CHR ''='' \<in> set e)"

definition entryKey :: "string \<Rightarrow> string" where
  "entryKey e = takeWhile (\<lambda>c. c \<noteq> CHR ''='') e"

definition entryValue :: "string \<Rightarrow> string" where
  "entryValue e = tl (dropWhile (\<lambda>c. c \<noteq> CHR ''='') e)"

text \<open>
  The words of the specification for the brace stripping: one leading \<^verbatim>\<open>{\<close> and one
  trailing \<^verbatim>\<open>}\<close> are removed, and only when both stand at the very ends.
\<close>

definition stripOuterPair_spec :: "string \<Rightarrow> string" where
  "stripOuterPair_spec s =
     (if 2 \<le> length s \<and> hd s = CHR ''{'' \<and> last s = CHR ''}'' then butlast (tl s) else s)"

section \<open>Theorems\<close>

subsection \<open>Classification\<close>

text \<open>
  C4: with an empty result the classification is decided by an exact, case-sensitive match
  on the status: \<^verbatim>\<open>STARTED\<close> is blue with the label "Started", \<^verbatim>\<open>COMPLETED\<close> is green
  with the label "Completed", and every other status (the empty one included) is gray
  with the status itself as the label. The labels are spelled as their bytes: the UTF-8
  encoding of the emoji (U+1F504 for "Started", U+2705 for "Completed"), a space and the
  word.
\<close>

theorem classify_empty_result:
  "Classify [] ''STARTED''
     = (0x0099FF, [CHR 0xF0, CHR 0x9F, CHR 0x94, CHR 0x84] @ '' Started'')
   \<and> Classify [] ''COMPLETED''
     = (0x00FF00, [CHR 0xE2, CHR 0x9C, CHR 0x85] @ '' Completed'')
   \<and> (s \<noteq> ''STARTED'' \<and> s \<noteq> ''COMPLETED'' \<longrightarrow> Classify [] s = (0x808080, s))"
  by (simp add: Classify_def getStatusColor_def getStatusText_def label_started_def
      label_completed_def)

theorem classify_empty_result_witness:
  "Classify [] ''started'' = (0x808080, ''started'')
   \<and> Classify [] ''Completed'' = (0x808080, ''Completed'')
   \<and> Classify [] [] = (0x808080, [])
   \<and> Classify [] ''STARTED''
     = (0x0099FF, [CHR 0xF0, CHR 0x9F, CHR 0x94, CHR 0x84] @ '' Started'')
   \<and> Classify [] ''COMPLETED''
     = (0x00FF00, [CHR 0xE2, CHR 0x9C, CHR 0x85] @ '' Completed'')"
  using classify_empty_result [of "''started''"] classify_empty_result [of "''Completed''"]
    classify_empty_result [of "[]"]
  by simp

text \<open>
  C5: a result of the fixed vocabulary decides the classification whatever the status is:
  \<^verbatim>\<open>SUCCESS\<close> is green, \<^verbatim>\<open>FAILURE\<close> red, \<^verbatim>\<open>UNSTABLE\<close> orange and \<^verbatim>\<open>ABORTED\<close> gray,
  each with its fixed label. The labels are spelled as their bytes: the UTF-8 encoding of
  the emoji (U+2705, U+274C, U+26A0 with U+FE0F, and U+1F6D1), a space and the word.
\<close>

theorem classify_known_result:
  "Classify ''SUCCESS'' s = (0x00FF00, [CHR 0xE2, CHR 0x9C, CHR 0x85] @ '' Success'')
   \<and> Classify ''FAILURE'' s = (0xFF0000, [CHR 0xE2, CHR 0x9D, CHR 0x8C] @ '' Failure'')
   \<and> Classify ''UNSTABLE'' s
     = (0xFFA500, [CHR 0xE2, CHR 0x9A, CHR 0xA0, CHR 0xEF, CHR 0xB8, CHR 0x8F] @ '' Unstable'')
   \<and> Classify ''ABORTED'' s
     = (0x808080, [CHR 0xF0, CHR 0x9F, CHR 0x9B, CHR 0x91] @ '' Aborted'')"
  by (simp add: Classify_def getStatusColor_def getStatusText_def label_success_def
      label_failure_def label_unstable_def label_aborted_def)

text \<open>
  C1, at the input where the code leaves the claim: an unrecognised non-empty result with
  the status \<^verbatim>\<open>STARTED\<close> (or \<^verbatim>\<open>COMPLETED\<close>) is labelled with the raw result, as claimed,
  but coloured by the status, blue (or green), not gray.
\<close>

theorem classify_unknown_result_consults_status:
  "Classify ''weird-code'' ''STARTED'' = (0x0099FF, ''weird-code'')
   \<and> Classify ''weird-code'' ''COMPLETED'' = (0x00FF00, ''weird-code'')
   \<and> Classify ''weird-code'' [] = (0x808080, ''weird-code'')"
  by (simp add: Classify_def getStatusColor_def getStatusText_def)

subsection \<open>Build variables: the string functions\<close>

lemma Trim_decomp:
  assumes pre: "set pre \<subseteq> set cutset" and post: "set post \<subseteq> set cutset"
    and mid: "mid = [] \<or> (hd mid \<notin> set cutset \<and> last mid \<notin> set cutset)"
  shows "Trim (pre @ mid @ post) cutset = mid"
proof (cases "mid = []")
  case True
  have "\<forall>x \<in> set (rev post @ rev pre). x \<in> set cutset"
    using pre post by auto
  then have "dropWhile (\<lambda>c. c \<in> set cutset) (rev post @ rev pre) = []"
    by (simp only: dropWhile_eq_Nil_conv)
  then have dw: "trimRightASCII (pre @ post) cutset = []"
    by (simp add: trimRightASCII_def)
  have "cutset = [] \<Longrightarrow> pre @ post = []"
    using pre post by simp
  with dw True show ?thesis
    by (auto simp add: Trim_def trimLeftASCII_def)
next
  case False
  with mid have h: "hd mid \<notin> set cutset" and l: "last mid \<notin> set cutset" by auto
  have pb: "x \<in> set (rev post) \<Longrightarrow> x \<in> set cutset" for x
    using post by auto
  from False obtain b where r: "rev mid = last mid # b"
    by (metis hd_rev list.exhaust_sel rev_is_Nil_conv)
  have "dropWhile (\<lambda>c. c \<in> set cutset) (rev post @ rev mid @ rev pre) = rev mid @ rev pre"
    unfolding r by (subst dropWhile_append2) (use pb l in auto)
  then have "dropWhile (\<lambda>c. c \<in> set cutset) (rev (pre @ mid @ post)) = rev mid @ rev pre"
    by (simp only: rev_append append_assoc)
  then have 1: "trimRightASCII (pre @ mid @ post) cutset = pre @ mid"
    by (simp add: trimRightASCII_def)
  have m: "mid = hd mid # tl mid" using False by simp
  have "dropWhile (\<lambda>c. c \<in> set cutset) (pre @ mid) = dropWhile (\<lambda>c. c \<in> set cutset) mid"
    by (rule dropWhile_append2) (use pre in auto)
  also have "\<dots> = mid" using h m by (metis dropWhile.simps(2))
  finally have 2: "trimLeftASCII (pre @ mid) cutset = mid"
    by (simp add: trimLeftASCII_def)
  show ?thesis
  proof (cases "cutset = []")
    case True
    with pre post show ?thesis by (simp add: Trim_def)
  next
    case ne: False
    with \<open>mid \<noteq> []\<close> 1 2 show ?thesis by (simp add: Trim_def)
  qed
qed

lemma Index_single:
  "Index v [c] = (if c \<in> set v then Some (length (takeWhile (\<lambda>x. x \<noteq> c) v)) else None)"
proof (induction v)
  case Nil
  show ?case by simp
next
  case (Cons a v)
  show ?case
  proof (cases "a = c")
    case True
    then show ?thesis by simp
  next
    case False
    then have "Index (a # v) [c] = map_option Suc (Index v [c])" by simp
    with False Cons.IH show ?thesis by simp
  qed
qed

lemma SplitN_eq:
  "SplitN v ''='' 2 = (if hasEq v then [entryKey v, entryValue v] else [v])"
proof (cases v)
  case Nil
  then show ?thesis by (simp add: SplitN_def genSplit_def hasEq_def)
next
  case (Cons a w)
  have d: "drop (Suc (length (takeWhile P v))) v = tl (dropWhile P v)" for P
    by (simp only: dropWhile_eq_drop drop_Suc tl_drop)
  have t: "take (length (takeWhile P v)) v = takeWhile P v" for P
    by (rule takeWhile_eq_take [symmetric])
  have "SplitN v ''='' 2 = genSplit_loop v ''='' (Suc 0)"
    using Cons by (simp add: SplitN_def genSplit_def)
  then show ?thesis
    using d t by (simp add: Index_single hasEq_def entryKey_def entryValue_def)
qed

lemma formatLoop_eq:
  "formatLoop vars acc = acc @ map (\<lambda>e. formatVar (entryKey e) (entryValue e)) (filter hasEq vars)"
  by (induction vars arbitrary: acc) (simp_all add: SplitN_eq Let_def)

lemma Split_Nil: "Split [] '', '' = [[]]"
  by (simp add: Split_def genSplit_def)

lemma formatBuildVars_unfold:
  "formatBuildVars raw =
     Join (map (\<lambda>e. formatVar (entryKey e) (entryValue e))
            (filter hasEq (Split (Trim raw ''{}'') '', ''))) [CHR 0x0A]"
proof -
  have "Trim [] ''{}'' = []" by (simp add: Trim_def)
  then show ?thesis
    by (auto simp: formatBuildVars_def Let_def formatLoop_eq Split_Nil hasEq_def)
qed

lemma Index_Some_at: "Index s sep = Some m \<Longrightarrow> take (length sep) (drop m s) = sep"
proof (induction s arbitrary: m)
  case Nil
  then show ?case by (simp split: if_splits)
next
  case (Cons c s)
  show ?case
  proof (cases "take (length sep) (c # s) = sep")
    case True
    with Cons.prems show ?thesis by simp
  next
    case False
    with Cons.prems obtain k where k: "Index s sep = Some k" "m = Suc k" by auto
    from Cons.IH [OF k(1)] k(2) show ?thesis by simp
  qed
qed

lemma Index_Some_split:
  assumes "Index s sep = Some m"
  shows "take m s @ sep @ drop (m + length sep) s = s"
proof -
  have "drop m s = take (length sep) (drop m s) @ drop (length sep) (drop m s)"
    by (simp only: append_take_drop_id)
  with Index_Some_at [OF assms] have "drop m s = sep @ drop (m + length sep) s"
    by (simp add: add.commute)
  then have "take m s @ sep @ drop (m + length sep) s = take m s @ drop m s"
    by simp
  then show ?thesis by simp
qed

lemma genSplit_loop_not_Nil: "genSplit_loop s sep n \<noteq> []"
  by (cases n) (simp_all split: option.splits)

lemma Join_Cons: "xs \<noteq> [] \<Longrightarrow> Join (a # xs) sep = a @ sep @ Join xs sep"
  by (cases xs) simp_all

lemma Join_genSplit_loop: "Join (genSplit_loop s sep n) sep = s"
proof (induction n arbitrary: s)
  case 0
  show ?case by simp
next
  case (Suc n)
  show ?case
  proof (cases "Index s sep")
    case None
    then show ?thesis by simp
  next
    case (Some m)
    then have "Join (genSplit_loop s sep (Suc n)) sep
                 = take m s @ sep @ Join (genSplit_loop (drop (m + length sep) s) sep n) sep"
      by (simp add: Join_Cons genSplit_loop_not_Nil)
    with Suc.IH Index_Some_split [OF Some] show ?thesis by simp
  qed
qed

lemma Index_take_None:
  assumes "sep \<noteq> []"
  shows "Index s sep = Some m \<Longrightarrow> Index (take m s) sep = None"
proof (induction s arbitrary: m)
  case Nil
  then show ?case using assms by simp
next
  case (Cons c s)
  show ?case
  proof (cases "take (length sep) (c # s) = sep")
    case True
    with Cons.prems assms show ?thesis by simp
  next
    case False
    with Cons.prems obtain k where k: "Index s sep = Some k" "m = Suc k" by auto
    have "take (length sep) (c # take k s) \<noteq> sep"
    proof
      assume eq: "take (length sep) (c # take k s) = sep"
      from arg_cong [OF eq, of length] have "length sep \<le> Suc k" by simp
      then have "take (length sep) (take (Suc k) (c # s)) = take (length sep) (c # s)"
        by (simp only: take_take min.absorb1)
      with eq False show False by simp
    qed
    with Cons.IH [OF k(1)] k(2) show ?thesis by simp
  qed
qed

lemma Count_unfold:
  "sep \<noteq> [] \<Longrightarrow> Count s sep =
     (case Index s sep of None \<Rightarrow> 0 | Some i \<Rightarrow> Suc (Count (drop (i + length sep) s) sep))"
  by (subst Count.simps) simp

lemma Count_le_length:
  assumes "sep \<noteq> []"
  shows "Count s sep \<le> length s"
proof (induction s rule: length_induct)
  case (1 s)
  show ?case
  proof (cases "Index s sep")
    case None
    with assms show ?thesis by (simp add: Count_unfold)
  next
    case (Some m)
    let ?r = "drop (m + length sep) s"
    from Index_Some_shorter [OF assms Some] have "length ?r < length s" by simp
    with 1 have "Count ?r sep \<le> length ?r" by blast
    with \<open>length ?r < length s\<close> Some assms show ?thesis by (simp add: Count_unfold)
  qed
qed

lemma Split_eq_loop:
  assumes "sep \<noteq> []"
  shows "Split s sep = genSplit_loop s sep (Count s sep)"
  using Count_le_length [OF assms, of s] by (simp add: Split_def genSplit_def Let_def)

lemma genSplit_loop_entries:
  assumes "sep \<noteq> []"
  shows "Count s sep \<le> n \<Longrightarrow> e \<in> set (genSplit_loop s sep n) \<Longrightarrow> Index e sep = None"
proof (induction n arbitrary: s)
  case 0
  then show ?case using assms by (simp add: Count_unfold split: option.splits)
next
  case (Suc n)
  show ?case
  proof (cases "Index s sep")
    case None
    with Suc.prems show ?thesis by simp
  next
    case (Some m)
    with Suc.prems(1) assms have c: "Count (drop (m + length sep) s) sep \<le> n"
      by (simp add: Count_unfold)
    from Suc.prems(2) Some
    have "e = take m s \<or> e \<in> set (genSplit_loop (drop (m + length sep) s) sep n)" by simp
    then show ?thesis
    proof
      assume "e = take m s"
      with Index_take_None [OF assms Some] show ?thesis by simp
    next
      assume "e \<in> set (genSplit_loop (drop (m + length sep) s) sep n)"
      with Suc.IH [OF c] show ?thesis .
    qed
  qed
qed

lemma Join_Split: "sep \<noteq> [] \<Longrightarrow> Join (Split s sep) sep = s"
  by (simp add: Split_eq_loop Join_genSplit_loop)

lemma Split_entries: "sep \<noteq> [] \<Longrightarrow> e \<in> set (Split s sep) \<Longrightarrow> Index e sep = None"
  using genSplit_loop_entries [of sep s "Count s sep" e] by (simp add: Split_eq_loop)

subsection \<open>Build variables: the claims\<close>

text \<open>
  C2, as the code has it: \<^verbatim>\<open>strings.Trim(buildVars, "{}")\<close> removes every brace at either
  end. Whatever run of \<^verbatim>\<open>{\<close> and \<^verbatim>\<open>}\<close> characters stands before and after a middle part
  that neither starts nor ends with a brace, the result is that middle part, braces inside
  it included; and the parsed variables are those of the middle part alone.
\<close>

theorem trim_strips_every_outer_brace:
  assumes "set pre \<subseteq> {CHR ''{'', CHR ''}''}" and "set post \<subseteq> {CHR ''{'', CHR ''}''}"
    and "mid = [] \<or> (hd mid \<notin> {CHR ''{'', CHR ''}''} \<and> last mid \<notin> {CHR ''{'', CHR ''}''})"
  shows "Trim (pre @ mid @ post) ''{}'' = mid
         \<and> formatBuildVars (pre @ mid @ post) = formatBuildVars mid"
proof -
  have s: "set ''{}'' = {CHR ''{'', CHR ''}''}" by simp
  have 1: "Trim (pre @ mid @ post) ''{}'' = mid"
    using assms by (intro Trim_decomp) (simp_all only: s)
  have "Trim ([] @ mid @ []) ''{}'' = mid"
    using assms(3) by (intro Trim_decomp) (simp_all only: s, simp_all)
  then have 2: "Trim mid ''{}'' = mid" by simp
  show ?thesis
    using 1 2 by (simp add: formatBuildVars_unfold [of "pre @ mid @ post"] formatBuildVars_unfold [of mid])
qed

theorem trim_strips_every_outer_brace_witness:
  "Trim (''{{'' @ ''a={b}, c=2'' @ ''}'') ''{}'' = ''a={b}, c=2''
   \<and> formatBuildVars (''{{'' @ ''a={b}, c=2'' @ ''}'') = formatBuildVars ''a={b}, c=2''"
  using trim_strips_every_outer_brace [of "''{{''" "''}''" "''a={b}, c=2''"]
  by simp

text \<open>
  C2 as stated fails: a doubled pair of braces does not keep its inner pair, and a lone
  trailing brace is stripped although no leading brace stands at the other end.
\<close>

theorem strip_one_brace_pair_counterexample:
  "stripOuterPair_spec ''{{a=1}}'' = ''{a=1}'' \<and> Trim ''{{a=1}}'' ''{}'' = ''a=1''
   \<and> formatBuildVars ''{{a=1}}'' = ''**a**: 1''
   \<and> stripOuterPair_spec ''a=1}'' = ''a=1}'' \<and> Trim ''a=1}'' ''{}'' = ''a=1''
   \<and> formatBuildVars ''a=1}'' = ''**a**: 1''"
  by code_simp

text \<open>
  C7: the parsed build variables are the entries of the brace-stripped string, cut at every
  \<^verbatim>\<open>", "\<close> (joining the entries with the separator gives the string back, and no entry
  contains the separator), without the entries that have no \<^verbatim>\<open>=\<close>, each rendered as
  \<^verbatim>\<open>**key**: value\<close> from what stands before and after its first \<^verbatim>\<open>=\<close>, trimmed of
  white space, and joined with line feeds; with the four examples of the specification.
\<close>

theorem formatBuildVars_entries:
  "formatBuildVars raw =
     Join (map (\<lambda>e. ''**'' @ TrimSpace (entryKey e) @ ''**: '' @ TrimSpace (entryValue e))
            (filter hasEq (Split (Trim raw ''{}'') '', ''))) [CHR 0x0A]
   \<and> Join (Split s '', '') '', '' = s
   \<and> (\<forall>e \<in> set (Split s '', ''). Index e '', '' = None)
   \<and> (hasEq e \<longrightarrow> e = entryKey e @ ''='' @ entryValue e \<and> \<not> hasEq (entryKey e))
   \<and> formatBuildVars ''{a=1, b=2}'' = ''**a**: 1'' @ [CHR 0x0A] @ ''**b**: 2''
   \<and> formatBuildVars ''{}'' = []
   \<and> formatBuildVars ''novalidpairs'' = []
   \<and> formatBuildVars ''a=1, bad, c=3'' = ''**a**: 1'' @ [CHR 0x0A] @ ''**c**: 3''"
proof -
  have 1: "formatBuildVars raw =
     Join (map (\<lambda>e. ''**'' @ TrimSpace (entryKey e) @ ''**: '' @ TrimSpace (entryValue e))
            (filter hasEq (Split (Trim raw ''{}'') '', ''))) [CHR 0x0A]"
    by (simp only: formatBuildVars_unfold formatVar_def)
  have 2: "Join (Split s '', '') '', '' = s" by (simp add: Join_Split)
  have 3: "\<forall>e \<in> set (Split s '', ''). Index e '', '' = None"
    using Split_entries [of "'', ''" _ s] by simp
  have 4: "hasEq e \<longrightarrow> e = entryKey e @ ''='' @ entryValue e \<and> \<not> hasEq (entryKey e)"
  proof
    assume h: "hasEq e"
    let ?P = "\<lambda>c. c \<noteq> CHR ''=''"
    from h have "dropWhile ?P e \<noteq> []" by (simp add: hasEq_def)
    then have "dropWhile ?P e = hd (dropWhile ?P e) # tl (dropWhile ?P e)" by simp
    moreover from \<open>dropWhile ?P e \<noteq> []\<close> have "hd (dropWhile ?P e) = CHR ''=''"
      using hd_dropWhile [of ?P e] by simp
    ultimately have "dropWhile ?P e = ''='' @ entryValue e" by (simp add: entryValue_def)
    then have "e = entryKey e @ ''='' @ entryValue e"
      using takeWhile_dropWhile_id [of ?P e] by (simp only: entryKey_def)
    moreover have "\<not> hasEq (entryKey e)"
      using set_takeWhileD [of "CHR ''=''" ?P e] by (auto simp: hasEq_def entryKey_def)
    ultimately show "e = entryKey e @ ''='' @ entryValue e \<and> \<not> hasEq (entryKey e)" by simp
  qed
  have 5: "formatBuildVars ''{a=1, b=2}'' = ''**a**: 1'' @ [CHR 0x0A] @ ''**b**: 2''" by code_simp
  have 6: "formatBuildVars ''{}'' = []" by code_simp
  have 7: "formatBuildVars ''novalidpairs'' = []" by code_simp
  have 8: "formatBuildVars ''a=1, bad, c=3'' = ''**a**: 1'' @ [CHR 0x0A] @ ''**c**: 3''" by code_simp
  from 1 2 3 4 5 6 7 8 show ?thesis by blast
qed

theorem formatBuildVars_entries_witness:
  "formatBuildVars ''{ k = v=w , junk}'' = ''**k**: v=w''
   \<and> Split ''a=1, bad'' '', '' = [''a=1'', ''bad''] \<and> Index ''bad'' '', '' = None
   \<and> hasEq ''k=v=w'' \<and> entryKey ''k=v=w'' = ''k'' \<and> entryValue ''k=v=w'' = ''v=w''
   \<and> ''k=v=w'' = entryKey ''k=v=w'' @ ''='' @ entryValue ''k=v=w''"
proof -
  have s: "Split ''a=1, bad'' '', '' = [''a=1'', ''bad'']" by code_simp
  have h: "hasEq ''k=v=w''" by (simp add: hasEq_def)
  have f: "formatBuildVars ''{ k = v=w , junk}'' = ''**k**: v=w''" by code_simp
  have k: "entryKey ''k=v=w'' = ''k''" "entryValue ''k=v=w'' = ''v=w''"
    by (simp_all add: entryKey_def entryValue_def)
  from formatBuildVars_entries [of "''{ k = v=w , junk}''" "''a=1, bad''" "''k=v=w''"]
  have "Index ''bad'' '', '' = None"
    and "''k=v=w'' = entryKey ''k=v=w'' @ ''='' @ entryValue ''k=v=w''"
    using s h by simp_all
  with s h f k show ?thesis by simp
qed

subsection \<open>The translation: the claims\<close>

text \<open>
  C8: the nested variant produces one card. Its title is the display name, \<^verbatim>\<open> - Build #\<close>
  and the build number; its description the build's full display name; its link the
  build's URL; its footer \<^verbatim>\<open>Jenkins CI/CD\<close>; its fields are Build Number, Status (the
  classified label), Duration (formatted) and Phase, all inline and in this order, followed
  by a Cause field that is not inline exactly when the cause is not empty. So the card
  has 4 or 5 fields, by the cause alone.
\<close>

theorem nested_card_layout:
  "convertToDiscordPayload loc j =
     \<lparr>Content = [],
      Embeds =
        [\<lparr>Title = DisplayName j @ '' - Build #'' @ Sprintf_d (sint (Number (Build j))),
          Description = FullDisplayName (Build j),
          Embed_URL = Build_URL (Build j),
          Color = fst (Classify (Result (Build j)) (Status (Build j))),
          Fields =
            [\<lparr>Field_Name = ''Build Number'',
              Field_Value = ''#'' @ Sprintf_d (sint (Number (Build j))), Inline = True\<rparr>,
             \<lparr>Field_Name = ''Status'',
              Field_Value = snd (Classify (Result (Build j)) (Status (Build j))),
              Inline = True\<rparr>,
             \<lparr>Field_Name = ''Duration'', Field_Value = formatDuration (Duration (Build j)),
              Inline = True\<rparr>,
             \<lparr>Field_Name = ''Phase'', Field_Value = Phase (Build j), Inline = True\<rparr>]
            @ (if Cause (Build j) = [] then []
               else [\<lparr>Field_Name = ''Cause'', Field_Value = Cause (Build j),
                      Inline = False\<rparr>]),
          Embed_Timestamp = Format_RFC3339 loc (sint (Timestamp (Build j)) sdiv 1000),
          Footer = Some \<lparr>Footer_Text = ''Jenkins CI/CD''\<rparr>\<rparr>]\<rparr>
   \<and> length (Embeds (convertToDiscordPayload loc j)) = 1
   \<and> length (concat (map Fields (Embeds (convertToDiscordPayload loc j))))
       = (if Cause (Build j) = [] then 4 else 5)"
  by (simp add: convertToDiscordPayload_def Classify_def Let_def)

text \<open>The card of the README's sample payload.\<close>

theorem nested_card_layout_sample:
  "map Title (Embeds (convertToDiscordPayload UTC sampleEvent)) = [''My Project - Build #42'']
   \<and> map (map Field_Value \<circ> Fields) (Embeds (convertToDiscordPayload UTC sampleEvent))
       = [[''#42'', label_success, ''2.1m'', ''COMPLETED'', ''Started by user admin'']]
   \<and> map Color (Embeds (convertToDiscordPayload UTC sampleEvent)) = [0x00FF00]"
proof -
  have d: "formatDuration 125000 = ''2.1m''" by code_simp
  have n: "Sprintf_d 42 = ''42''" by code_simp
  show ?thesis
    using nested_card_layout [of UTC sampleEvent] d n
    by (simp add: sampleEvent_def sampleBuild_def Classify_def getStatusColor_def
        getStatusText_def)
qed

lemma sdiv_nonneg_eq_div: "0 \<le> (k::int) \<Longrightarrow> 0 < l \<Longrightarrow> k sdiv l = k div l"
  by (simp add: signed_divide_int_def sgn_if)

text \<open>
  C9, as the code has it: the card's timestamp is the rendering, in the zone of the process,
  of the inbound milliseconds divided by 1000 with Go's division, which truncates towards
  zero. For timestamps that are not negative this is the whole second the instant lies in,
  so two such timestamps in the same whole second are rendered alike; a negative timestamp
  is rounded up to the next second.
\<close>

theorem nested_timestamp_truncates:
  "map Embed_Timestamp (Embeds (convertToDiscordPayload loc j))
     = [Format_RFC3339 loc (sint (Timestamp (Build j)) sdiv 1000)]
   \<and> (0 \<le> sint (Timestamp (Build j)) \<and> 0 \<le> sint (Timestamp (Build j'))
        \<and> sint (Timestamp (Build j)) div 1000 = sint (Timestamp (Build j')) div 1000
      \<longrightarrow> map Embed_Timestamp (Embeds (convertToDiscordPayload loc j))
          = map Embed_Timestamp (Embeds (convertToDiscordPayload loc j')))
   \<and> (0 \<le> sint (Timestamp (Build j))
      \<longrightarrow> sint (Timestamp (Build j)) sdiv 1000 = sint (Timestamp (Build j)) div 1000)
   \<and> (sint (Timestamp (Build j)) < 0
      \<longrightarrow> sint (Timestamp (Build j)) sdiv 1000 = - ((- sint (Timestamp (Build j))) div 1000))"
proof -
  have 1: "map Embed_Timestamp (Embeds (convertToDiscordPayload loc k))
     = [Format_RFC3339 loc (sint (Timestamp (Build k)) sdiv 1000)]" for k
    by (simp add: convertToDiscordPayload_def Let_def)
  have 2: "0 \<le> x \<longrightarrow> x sdiv 1000 = x div 1000" for x :: int
    by (simp add: sdiv_nonneg_eq_div)
  have 3: "x < 0 \<longrightarrow> x sdiv 1000 = - ((- x) div 1000)" for x :: int
    by (simp add: signed_divide_int_def sgn_if)
  show ?thesis
    using 1 [of j] 1 [of j'] 2 [of "sint (Timestamp (Build j))"]
      2 [of "sint (Timestamp (Build j'))"] 3 [of "sint (Timestamp (Build j))"]
    by simp
qed

theorem nested_timestamp_truncates_witness:
  "map Embed_Timestamp
     (Embeds (convertToDiscordPayload UTC (sampleEvent\<lparr>Build := sampleBuild\<lparr>Timestamp := 1642584000999\<rparr>\<rparr>)))
   = map Embed_Timestamp (Embeds (convertToDiscordPayload UTC sampleEvent))
   \<and> map Embed_Timestamp (Embeds (convertToDiscordPayload UTC sampleEvent))
     = [''2022-01-19T09:20:00Z'']"
proof -
  let ?j = "sampleEvent\<lparr>Build := sampleBuild\<lparr>Timestamp := 1642584000999\<rparr>\<rparr>"
  have f: "Format_RFC3339 UTC 1642584000 = ''2022-01-19T09:20:00Z''" by code_simp
  have a: "sint (Timestamp (Build ?j)) = 1642584000999"
    and b: "sint (Timestamp (Build sampleEvent)) = 1642584000000"
    by (simp_all add: sampleEvent_def sampleBuild_def)
  have h: "0 \<le> sint (Timestamp (Build ?j)) \<and> 0 \<le> sint (Timestamp (Build sampleEvent))
        \<and> sint (Timestamp (Build ?j)) div 1000 = sint (Timestamp (Build sampleEvent)) div 1000"
    by (simp only: a b) simp
  have d: "sint (Timestamp (Build sampleEvent)) sdiv 1000 = 1642584000"
    by (simp only: b) (simp add: signed_divide_int_def)
  from nested_timestamp_truncates [of UTC ?j sampleEvent] h
  have 1: "map Embed_Timestamp (Embeds (convertToDiscordPayload UTC ?j))
             = map Embed_Timestamp (Embeds (convertToDiscordPayload UTC sampleEvent))"
    by blast
  from nested_timestamp_truncates [of UTC sampleEvent sampleEvent]
  have "map Embed_Timestamp (Embeds (convertToDiscordPayload UTC sampleEvent))
          = [Format_RFC3339 UTC (sint (Timestamp (Build sampleEvent)) sdiv 1000)]"
    by blast
  then have 2: "map Embed_Timestamp (Embeds (convertToDiscordPayload UTC sampleEvent))
          = [''2022-01-19T09:20:00Z'']"
    by (simp only: d f)
  from 1 2 show ?thesis by (rule conjI)
qed

text \<open>
  C9 as stated fails before the epoch: the timestamps \<open>-1\<close> and \<open>-1000\<close> lie in the same
  whole second, the last one of 1969, and are rendered as different seconds.
\<close>

theorem same_second_counterexample:
  "sint (- 1 :: 64 word) div 1000 = sint (- 1000 :: 64 word) div 1000
   \<and> map Embed_Timestamp
        (Embeds (convertToDiscordPayload UTC (sampleEvent\<lparr>Build := sampleBuild\<lparr>Timestamp := - 1\<rparr>\<rparr>)))
      = [''1970-01-01T00:00:00Z'']
   \<and> map Embed_Timestamp
        (Embeds (convertToDiscordPayload UTC (sampleEvent\<lparr>Build := sampleBuild\<lparr>Timestamp := - 1000\<rparr>\<rparr>)))
      = [''1969-12-31T23:59:59Z'']"
proof -
  have f: "Format_RFC3339 UTC 0 = ''1970-01-01T00:00:00Z''"
    and g: "Format_RFC3339 UTC (- 1) = ''1969-12-31T23:59:59Z''" by code_simp+
  have a: "sint (- 1 :: 64 word) = - 1" and b: "sint (- 1000 :: 64 word) = - 1000" by simp_all
  have c: "(- 1 :: int) sdiv 1000 = 0" "(- 1000 :: int) sdiv 1000 = - 1"
    by (simp_all add: signed_divide_int_def)
  show ?thesis
    using f g a b c
    by (simp add: convertToDiscordPayload_def Let_def sampleEvent_def sampleBuild_def)
qed




subsection \<open>Durations: rounding and the thresholds of the units\<close>

lemma roundEven_of_int: "roundEven (of_int n) = n"
  by (simp add: roundEven_def)

lemma roundEven_ge: "of_int n \<le> x \<Longrightarrow> n \<le> roundEven x"
proof -
  assume "of_int n \<le> x"
  then have "n \<le> \<lfloor>x\<rfloor>" by (simp add: le_floor_iff)
  then show ?thesis by (simp add: roundEven_def Let_def)
qed

lemma roundEven_le: "x \<le> of_int n \<Longrightarrow> roundEven x \<le> n"
proof -
  assume a: "x \<le> of_int n"
  show ?thesis
  proof (cases "x = of_int n")
    case True
    then show ?thesis by (simp add: roundEven_of_int)
  next
    case False
    with a have "x < of_int n" by simp
    then have "\<lfloor>x\<rfloor> < n" by (simp add: floor_less_iff)
    then show ?thesis by (simp add: roundEven_def Let_def)
  qed
qed

lemma ilog2_bounds:
  assumes "0 < x"
  shows "2 powi ilog2 x \<le> x" and "x < 2 powi (ilog2 x + 1)"
proof -
  have "2 powi ilog2 x \<le> x \<and> x < 2 powi (ilog2 x + 1)"
  proof (cases "1 \<le> x")
    case True
    let ?n = "\<lfloor>x\<rfloor>"
    let ?b = "bitlen ?n"
    from True have n: "0 < ?n" by simp
    from bitlen_bounds [OF n] have lo: "2 ^ nat (?b - 1) \<le> ?n" and hi: "?n < 2 ^ nat ?b"
      by simp_all
    have b1: "1 \<le> ?b" using n by (simp add: bitlen_alt_def)
    have "(2::rat) ^ nat (?b - 1) = of_int (2 ^ nat (?b - 1))" by simp
    also have "\<dots> \<le> of_int ?n" using lo by (simp only: of_int_le_iff)
    also have "\<dots> \<le> x" by simp
    finally have 1: "(2::rat) ^ nat (?b - 1) \<le> x" .
    from hi have "?n + 1 \<le> 2 ^ nat ?b" by simp
    then have "(of_int (?n + 1) :: rat) \<le> of_int (2 ^ nat ?b)" by (simp only: of_int_le_iff)
    moreover have "x < of_int (?n + 1)" by linarith
    ultimately have 2: "x < (2::rat) ^ nat ?b" by simp
    from True b1 1 2 show ?thesis by (simp add: ilog2_def power_int_def)
  next
    case False
    let ?y = "1 / x"
    let ?m = "\<lceil>?y\<rceil> - 1"
    let ?b = "bitlen ?m"
    from False assms have y: "1 < ?y" by simp
    then have m: "0 < ?m" by linarith
    from bitlen_bounds [OF m] have lo: "2 ^ nat (?b - 1) \<le> ?m" and hi: "?m < 2 ^ nat ?b"
      by simp_all
    have b1: "1 \<le> ?b" using m by (simp add: bitlen_alt_def)
    from hi have c: "\<lceil>?y\<rceil> \<le> 2 ^ nat ?b" by simp
    have "?y \<le> of_int \<lceil>?y\<rceil>" by (rule le_of_int_ceiling)
    also have "\<dots> \<le> of_int (2 ^ nat ?b)" using c by (simp only: of_int_le_iff)
    also have "\<dots> = (2::rat) ^ nat ?b" by simp
    finally have "?y \<le> (2::rat) ^ nat ?b" .
    then have 1: "1 / (2::rat) ^ nat ?b \<le> x"
      using assms by (simp add: field_simps)
    have "(2::rat) ^ nat (?b - 1) = of_int (2 ^ nat (?b - 1))" by simp
    also have "\<dots> \<le> of_int ?m" using lo by (simp only: of_int_le_iff)
    also have "\<dots> < ?y" by linarith
    finally have "(2::rat) ^ nat (?b - 1) < ?y" .
    then have 2: "x < 1 / (2::rat) ^ nat (?b - 1)"
      using assms by (simp add: field_simps)
    have e: "ilog2 x = - ?b" using False by (simp add: ilog2_def)
    have p1: "(2::rat) powi (- ?b) = 1 / 2 ^ nat ?b"
      using b1 by (simp add: power_int_def field_simps)
    have p2: "(2::rat) powi (- ?b + 1) = 1 / 2 ^ nat (?b - 1)"
    proof (cases "?b = 1")
      case True
      then show ?thesis by simp
    next
      case ne: False
      with b1 have "- ?b + 1 < 0" by simp
      moreover have "nat (?b - 1) = nat (- (- ?b + 1))" by simp
      ultimately show ?thesis by (simp add: power_int_def field_simps)
    qed
    from 1 2 show ?thesis unfolding e p1 p2 by simp
  qed
  then show "2 powi ilog2 x \<le> x" and "x < 2 powi (ilog2 x + 1)" by simp_all
qed


lemma f64_round_pos_bounds:
  assumes "0 < x"
  shows "2 powi ilog2 x \<le> f64_round x" and "f64_round x \<le> 2 powi (ilog2 x + 1)"
proof -
  let ?e = "ilog2 x"
  let ?u = "(2::rat) powi (?e - 52)"
  have u: "0 < ?u" by simp
  have lo: "?u * 2 ^ 52 = 2 powi ?e"
    using power_int_add [of "2::rat" "?e - 52" 52] by simp
  have hi: "?u * 2 ^ 53 = 2 powi (?e + 1)"
    using power_int_add [of "2::rat" "?e - 52" 53] by (simp add: add.commute)
  have r: "f64_round x = of_int (roundEven (x / ?u)) * ?u"
    using assms by (simp add: f64_round_def Let_def)
  from ilog2_bounds(1) [OF assms] lo u have "of_int (2 ^ 52) \<le> x / ?u"
    by (simp add: pos_le_divide_eq mult.commute)
  then have "2 ^ 52 \<le> roundEven (x / ?u)" by (rule roundEven_ge)
  then have "(of_int (2 ^ 52) :: rat) \<le> of_int (roundEven (x / ?u))"
    by (simp only: of_int_le_iff)
  then have "of_int (2 ^ 52) * ?u \<le> of_int (roundEven (x / ?u)) * ?u"
    using u by (simp only: mult_le_cancel_right_pos)
  with lo r show "2 powi ilog2 x \<le> f64_round x" by (simp add: mult.commute)
  from ilog2_bounds(2) [OF assms] hi u have "x / ?u \<le> of_int (2 ^ 53)"
    by (simp add: pos_divide_le_eq mult.commute)
  then have "roundEven (x / ?u) \<le> 2 ^ 53" by (rule roundEven_le)
  then have "(of_int (roundEven (x / ?u)) :: rat) \<le> of_int (2 ^ 53)"
    by (simp only: of_int_le_iff)
  then have "of_int (roundEven (x / ?u)) * ?u \<le> of_int (2 ^ 53) * ?u"
    using u by (simp only: mult_le_cancel_right_pos)
  with hi r show "f64_round x \<le> 2 powi (ilog2 x + 1)" by (simp add: mult.commute)
qed

lemma f64_round_minus: "f64_round (- x) = - f64_round x"
  by (simp add: f64_round_def Let_def)

lemma f64_round_pos: "0 < x \<Longrightarrow> 0 < f64_round x"
proof -
  assume a: "0 < x"
  have "(0::rat) < 2 powi ilog2 x" by simp
  with f64_round_pos_bounds(1) [OF a] show ?thesis by linarith
qed

lemma f64_round_neg: "x < 0 \<Longrightarrow> f64_round x < 0"
  using f64_round_pos [of "- x"] by (simp add: f64_round_minus)

lemma f64_round_nonneg: "0 \<le> x \<Longrightarrow> 0 \<le> f64_round x"
  using f64_round_pos [of x] by (cases "x = 0") (simp_all add: f64_round_def)

lemma f64_round_nonpos: "x \<le> 0 \<Longrightarrow> f64_round x \<le> 0"
  using f64_round_neg [of x] by (cases "x = 0") (simp_all add: f64_round_def)

lemma f64_round_ge_1:
  assumes "1 \<le> x"
  shows "1 \<le> f64_round x"
proof -
  from assms have p: "0 < x" by simp
  have "0 \<le> ilog2 x"
  proof (rule ccontr)
    assume "\<not> 0 \<le> ilog2 x"
    then have "ilog2 x + 1 \<le> 0" by simp
    then have "(2::rat) powi (ilog2 x + 1) \<le> 2 powi 0"
      by (intro power_int_increasing) simp_all
    with ilog2_bounds(2) [OF p] assms show False by simp
  qed
  then have "(2::rat) powi 0 \<le> 2 powi ilog2 x"
    by (intro power_int_increasing) simp_all
  with f64_round_pos_bounds(1) [OF p] show ?thesis by simp
qed

lemma f64_round_below_1:
  assumes "0 \<le> x" and "x \<le> 1 - 1 / 2 ^ 42"
  shows "f64_round x \<le> 1 - 1 / 2 ^ 42"
proof (cases "x = 0")
  case True
  then show ?thesis by (simp add: f64_round_def)
next
  case False
  with assms have p: "0 < x" by simp
  let ?e = "ilog2 x"
  have neg: "?e < 0"
  proof (rule ccontr)
    assume "\<not> ?e < 0"
    then have "(2::rat) powi 0 \<le> 2 powi ?e"
      by (intro power_int_increasing) simp_all
    with ilog2_bounds(1) [OF p] assms(2) show False by simp
  qed
  show ?thesis
  proof (cases "?e = - 1")
    case True
    have "(2::rat) powi (- 53) = 1 / 2 ^ 53"
      by (simp add: power_int_minus inverse_eq_divide)
    then have u: "(2::rat) powi (?e - 52) = 1 / 2 ^ 53"
      unfolding True by simp
    have "x * 2 ^ 53 \<le> (1 - 1 / 2 ^ 42) * 2 ^ 53" using assms(2) by simp
    also have "\<dots> = of_int (2 ^ 53 - 2 ^ 11)" by simp
    finally have "roundEven (x * 2 ^ 53) \<le> 2 ^ 53 - 2 ^ 11" by (rule roundEven_le)
    then have "(of_int (roundEven (x * 2 ^ 53)) :: rat) \<le> of_int (2 ^ 53 - 2 ^ 11)"
      by (simp only: of_int_le_iff)
    then have "of_int (roundEven (x * 2 ^ 53)) / 2 ^ 53 \<le> (of_int (2 ^ 53 - 2 ^ 11) :: rat) / 2 ^ 53"
      by (simp only: divide_le_cancel) simp
    moreover have "f64_round x = of_int (roundEven (x * 2 ^ 53)) / 2 ^ 53"
    proof -
      have "f64_round x
              = of_int (roundEven (x / 2 powi (?e - 52))) * 2 powi (?e - 52)"
        using p by (simp add: f64_round_def Let_def)
      then have "f64_round x = of_int (roundEven (x / (1 / 2 ^ 53))) * (1 / 2 ^ 53)"
        by (simp only: u)
      then show ?thesis by simp
    qed
    ultimately show ?thesis by simp
  next
    case False
    with neg have "?e + 1 \<le> - 1" by simp
    then have "(2::rat) powi (?e + 1) \<le> 2 powi (- 1)"
      by (intro power_int_increasing) simp_all
    with f64_round_pos_bounds(2) [OF p] have "f64_round x \<le> 1 / 2"
      by (simp add: power_int_def)
    then show ?thesis by simp
  qed
qed

lemma f64_round_exact_int:
  assumes "0 \<le> n" and "n < 2 ^ 53"
  shows "f64_round (of_int n) = of_int n"
proof (cases "n = 0")
  case True
  then show ?thesis by (simp add: f64_round_def)
next
  case False
  with assms have p: "(0::rat) < of_int n" by simp
  let ?e = "ilog2 (of_int n)"
  have "?e < 53"
  proof (rule ccontr)
    assume "\<not> ?e < 53"
    then have "(2::rat) powi 53 \<le> 2 powi ?e"
      by (intro power_int_increasing) simp_all
    with ilog2_bounds(1) [OF p] have "(2::rat) ^ 53 \<le> of_int n" by simp
    then have "(of_int (2 ^ 53) :: rat) \<le> of_int n" by simp
    then have "2 ^ 53 \<le> n" by (simp only: of_int_le_iff)
    with assms(2) show False by simp
  qed
  then have k: "0 \<le> 52 - ?e" by simp
  define k where "k = nat (52 - ?e)"
  have u: "(2::rat) powi (?e - 52) = 1 / 2 ^ k"
  proof -
    have "(2::rat) powi (?e - 52) = 2 powi (- int k)" using k by (simp add: k_def)
    also have "\<dots> = 1 / 2 ^ k" by (simp add: power_int_minus field_simps)
    finally show ?thesis .
  qed
  have "of_int n / (1 / 2 ^ k) = (of_int (n * 2 ^ k) :: rat)" by simp
  then have "roundEven (of_int n / (1 / 2 ^ k)) = n * 2 ^ k"
    by (simp only: roundEven_of_int)
  moreover have "f64_round (of_int n)
          = of_int (roundEven (of_int n / 2 powi (?e - 52))) * 2 powi (?e - 52)"
    using p by (simp add: f64_round_def Let_def)
  ultimately have "f64_round (of_int n) = of_int (n * 2 ^ k) * (1 / 2 ^ k)"
    by (simp only: u)
  then show ?thesis by simp
qed

lemma sint_millis:
  assumes "- 9223372036854 \<le> sint ms" and "sint ms \<le> 9223372036854"
  shows "sint (ms * 1000000 :: 64 word) = sint ms * 1000000"
proof -
  have m: "sint (1000000 :: 64 word) = 1000000" by simp
  have "sint (ms * 1000000) = signed_take_bit 63 (sint ms * 1000000)"
    by (simp only: sint_word_mult m) simp
  also have "\<dots> = sint ms * 1000000"
    using assms by (intro signed_take_bit_int_eq_self) simp_all
  finally show ?thesis .
qed

lemma sdiv_smod_cases:
  fixes n U :: int
  assumes "0 < U"
  shows "U \<le> n \<Longrightarrow> 1 \<le> n sdiv U \<and> 0 \<le> n smod U"
    and "0 \<le> n \<Longrightarrow> n < U \<Longrightarrow> n sdiv U = 0 \<and> n smod U = n"
    and "n < 0 \<Longrightarrow> n sdiv U \<le> 0 \<and> n smod U \<le> 0 \<and> (n sdiv U < 0 \<or> n smod U < 0)"
proof -
  show "U \<le> n \<Longrightarrow> 1 \<le> n sdiv U \<and> 0 \<le> n smod U"
  proof -
    assume a: "U \<le> n"
    with assms have "1 \<le> n div U"
      by (simp add: pos_imp_zdiv_pos_iff int_one_le_iff_zero_less)
    with a assms show ?thesis
      by (simp add: signed_divide_int_def signed_modulo_int_def sgn_if)
  qed
  show "0 \<le> n \<Longrightarrow> n < U \<Longrightarrow> n sdiv U = 0 \<and> n smod U = n"
    using assms by (simp add: signed_divide_int_def signed_modulo_int_def sgn_if)
  show "n < 0 \<Longrightarrow> n sdiv U \<le> 0 \<and> n smod U \<le> 0 \<and> (n sdiv U < 0 \<or> n smod U < 0)"
  proof -
    assume a: "n < 0"
    have d: "0 \<le> (- n) div U" and m: "0 \<le> (- n) mod U"
      using a assms by (simp_all add: pos_imp_zdiv_nonneg_iff)
    have "(- n) div U * U + (- n) mod U = - n" by simp
    with a have "0 < (- n) div U \<or> 0 < (- n) mod U"
      using d m by (metis add.right_neutral mult_zero_left neg_0_less_iff_less order_le_less)
    with a assms d m show ?thesis
      by (auto simp add: signed_divide_int_def signed_modulo_int_def sgn_if)
  qed
qed

lemma unit_value_ge_1_iff:
  fixes n U :: int
  assumes U: "0 < U" "U \<le> 2 ^ 42"
  shows "1 \<le> f64_add (f64_of_int (n sdiv U)) (f64_div (f64_of_int (n smod U)) (of_int U))
         \<longleftrightarrow> U \<le> n"
proof -
  let ?a = "f64_of_int (n sdiv U)"
  let ?b = "f64_div (f64_of_int (n smod U)) (of_int U)"
  have Upos: "(0::rat) < of_int U" using U by simp
  consider "U \<le> n" | "0 \<le> n" "n < U" | "n < 0" by linarith
  then show ?thesis
  proof cases
    case 1
    from sdiv_smod_cases(1) [OF U(1) 1] have q: "1 \<le> n sdiv U" and r: "0 \<le> n smod U"
      by simp_all
    from q have "(1::rat) \<le> of_int (n sdiv U)" by simp
    then have a: "1 \<le> ?a" unfolding f64_of_int_def by (rule f64_round_ge_1)
    from r have "(0::rat) \<le> of_int (n smod U)" by simp
    then have "0 \<le> f64_of_int (n smod U)" unfolding f64_of_int_def by (rule f64_round_nonneg)
    with Upos have "0 \<le> f64_of_int (n smod U) / of_int U" by simp
    then have b: "0 \<le> ?b" unfolding f64_div_def by (rule f64_round_nonneg)
    from a b have "1 \<le> ?a + ?b" by linarith
    then have "1 \<le> f64_add ?a ?b" unfolding f64_add_def by (rule f64_round_ge_1)
    with 1 show ?thesis by simp
  next
    case 2
    from sdiv_smod_cases(2) [OF U(1) 2] have q: "n sdiv U = 0" and r: "n smod U = n"
      by simp_all
    have a: "?a = 0" by (simp add: q f64_of_int_def f64_round_def)
    from 2 U have "n < 2 ^ 53" by simp
    with 2 have e: "f64_of_int n = of_int n"
      unfolding f64_of_int_def by (intro f64_round_exact_int)
    have "of_int n \<le> (of_int (U - 1) :: rat)" using 2 by (simp only: of_int_le_iff)
    then have "of_int n / of_int U \<le> (of_int U - 1) / (of_int U :: rat)"
      using Upos by (simp add: divide_right_mono)
    also have "\<dots> = 1 - 1 / of_int U" using Upos by (simp add: field_simps)
    also have "\<dots> \<le> 1 - 1 / 2 ^ 42"
    proof -
      have "(of_int U :: rat) \<le> of_int (2 ^ 42)" using U(2) by (simp only: of_int_le_iff)
      then have "(of_int U :: rat) \<le> 2 ^ 42" by simp
      with Upos have "1 / (2 ^ 42 :: rat) \<le> 1 / of_int U"
        by (intro divide_left_mono) simp_all
      then show ?thesis by simp
    qed
    finally have le: "of_int n / of_int U \<le> (1 - 1 / 2 ^ 42 :: rat)" .
    have ge: "(0::rat) \<le> of_int n / of_int U" using 2 Upos by simp
    have b1: "?b \<le> 1 - 1 / 2 ^ 42"
      unfolding f64_div_def r e using ge le by (rule f64_round_below_1)
    have b0: "0 \<le> ?b"
      unfolding f64_div_def r e using ge by (rule f64_round_nonneg)
    have "f64_add ?a ?b = f64_round ?b" by (simp add: f64_add_def a)
    also have "\<dots> \<le> 1 - 1 / 2 ^ 42" using b0 b1 by (rule f64_round_below_1)
    finally have "f64_add ?a ?b < 1" by simp
    with 2 show ?thesis by simp
  next
    case 3
    from sdiv_smod_cases(3) [OF U(1) 3] have q: "n sdiv U \<le> 0" and r: "n smod U \<le> 0"
      by simp_all
    from q have "(of_int (n sdiv U) :: rat) \<le> 0" by simp
    then have a: "?a \<le> 0" unfolding f64_of_int_def by (rule f64_round_nonpos)
    from r have "(of_int (n smod U) :: rat) \<le> 0" by simp
    then have "f64_of_int (n smod U) \<le> 0" unfolding f64_of_int_def by (rule f64_round_nonpos)
    with Upos have "f64_of_int (n smod U) / of_int U \<le> 0" by (simp add: divide_le_0_iff)
    then have b: "?b \<le> 0" unfolding f64_div_def by (rule f64_round_nonpos)
    from a b have "?a + ?b \<le> 0" by linarith
    then have "f64_add ?a ?b \<le> 0" unfolding f64_add_def by (rule f64_round_nonpos)
    with 3 U show ?thesis by simp
  qed
qed

lemma unit_value_neg:
  fixes n U :: int
  assumes U: "0 < U" and n: "n < 0"
  shows "f64_add (f64_of_int (n sdiv U)) (f64_div (f64_of_int (n smod U)) (of_int U)) < 0"
proof -
  let ?a = "f64_of_int (n sdiv U)"
  let ?b = "f64_div (f64_of_int (n smod U)) (of_int U)"
  have Upos: "(0::rat) < of_int U" using U by simp
  from sdiv_smod_cases(3) [OF U n] have q: "n sdiv U \<le> 0" and r: "n smod U \<le> 0"
    and s: "n sdiv U < 0 \<or> n smod U < 0" by simp_all
  from q have q': "(of_int (n sdiv U) :: rat) \<le> 0" by simp
  then have a: "?a \<le> 0" unfolding f64_of_int_def by (rule f64_round_nonpos)
  from r have r': "(of_int (n smod U) :: rat) \<le> 0" by simp
  then have "f64_of_int (n smod U) \<le> 0" unfolding f64_of_int_def by (rule f64_round_nonpos)
  with Upos have "f64_of_int (n smod U) / of_int U \<le> 0" by (simp add: divide_le_0_iff)
  then have b: "?b \<le> 0" unfolding f64_div_def by (rule f64_round_nonpos)
  from s have "?a < 0 \<or> ?b < 0"
  proof
    assume "n sdiv U < 0"
    then have "(of_int (n sdiv U) :: rat) < 0" by simp
    then have "?a < 0" unfolding f64_of_int_def by (rule f64_round_neg)
    then show ?thesis ..
  next
    assume "n smod U < 0"
    then have "(of_int (n smod U) :: rat) < 0" by simp
    then have "f64_of_int (n smod U) < 0" unfolding f64_of_int_def by (rule f64_round_neg)
    with Upos have "f64_of_int (n smod U) / of_int U < 0" by (simp add: divide_less_0_iff)
    then have "?b < 0" unfolding f64_div_def by (rule f64_round_neg)
    then show ?thesis ..
  qed
  with a b have "?a + ?b < 0" by linarith
  then show ?thesis unfolding f64_add_def by (rule f64_round_neg)
qed

lemma Hours_ge_1_iff: "1 \<le> Hours d \<longleftrightarrow> 3600000000000 \<le> sint d"
  using unit_value_ge_1_iff [of 3600000000000 "sint d"] by (simp add: Hours_def)

lemma Minutes_ge_1_iff: "1 \<le> Minutes d \<longleftrightarrow> 60000000000 \<le> sint d"
  using unit_value_ge_1_iff [of 60000000000 "sint d"] by (simp add: Minutes_def)

lemma Seconds_neg: "sint d < 0 \<Longrightarrow> Seconds d < 0"
  using unit_value_neg [of 1000000000 "sint d"] by (simp add: Seconds_def)

lemma decimal_digit: "0 \<le> n \<Longrightarrow> n < 10 \<Longrightarrow> decimal n = [digit n]"
  by (subst decimal.simps) simp

lemma Sprintf_1f_shape: "\<exists>w c. Sprintf_1f x = w @ [CHR ''.'', c]"
proof -
  let ?n = "roundEven (\<bar>x\<bar> * 10)"
  have "decimal (?n mod 10) = [digit (?n mod 10)]"
    by (rule decimal_digit) simp_all
  then have "Sprintf_1f x
    = ((if x < 0 then ''-'' else []) @ decimal (?n div 10)) @ [CHR ''.'', digit (?n mod 10)]"
    by (simp add: Sprintf_1f_def Let_def)
  then show ?thesis by blast
qed

lemma formatDuration_in_range:
  assumes "sint ms \<noteq> 0" and "- 9223372036854 \<le> sint ms" and "sint ms \<le> 9223372036854"
  shows "formatDuration ms =
     (if 3600000 \<le> sint ms then Sprintf_1f (Hours (ms * 1000000)) @ ''h''
      else if 60000 \<le> sint ms then Sprintf_1f (Minutes (ms * 1000000)) @ ''m''
      else Sprintf_1f (Seconds (ms * 1000000)) @ ''s'')"
proof -
  from assms(1) have nz: "ms \<noteq> 0" by auto
  have d: "sint (ms * 1000000) = sint ms * 1000000"
    using assms(2,3) by (rule sint_millis)
  have h: "1 \<le> Hours (ms * 1000000) \<longleftrightarrow> 3600000 \<le> sint ms"
    by (simp add: Hours_ge_1_iff d)
  have m: "1 \<le> Minutes (ms * 1000000) \<longleftrightarrow> 60000 \<le> sint ms"
    by (simp add: Minutes_ge_1_iff d)
  show ?thesis
    using nz by (simp add: formatDuration_def Let_def h m)
qed

subsection \<open>Durations: the claims\<close>

text \<open>
  C6, as the code has it: the duration 0 is rendered as \<^verbatim>\<open>N/A\<close>. A positive duration of
  at most 9223372036854 milliseconds, the largest whose nanoseconds fit an \<^verbatim>\<open>int64\<close>, is
  rendered in one unit, with one digit after the point and the unit's suffix: in hours from
  3600000 milliseconds on, else in minutes from 60000 milliseconds on, else in seconds;
  with the three examples of the specification.
\<close>

theorem formatDuration_units:
  "formatDuration 0 = ''N/A''
   \<and> (0 < sint ms \<and> sint ms \<le> 9223372036854 \<longrightarrow>
        formatDuration ms =
          (if 3600000 \<le> sint ms then Sprintf_1f (Hours (ms * 1000000)) @ ''h''
           else if 60000 \<le> sint ms then Sprintf_1f (Minutes (ms * 1000000)) @ ''m''
           else Sprintf_1f (Seconds (ms * 1000000)) @ ''s''))
   \<and> (\<exists>w c. Sprintf_1f x = w @ [CHR ''.'', c])
   \<and> formatDuration 90000 = ''1.5m''
   \<and> formatDuration 3600000 = ''1.0h''
   \<and> formatDuration 5000 = ''5.0s''"
proof -
  have 1: "formatDuration 0 = ''N/A''" by (simp add: formatDuration_def)
  have 2: "0 < sint ms \<and> sint ms \<le> 9223372036854 \<longrightarrow>
        formatDuration ms =
          (if 3600000 \<le> sint ms then Sprintf_1f (Hours (ms * 1000000)) @ ''h''
           else if 60000 \<le> sint ms then Sprintf_1f (Minutes (ms * 1000000)) @ ''m''
           else Sprintf_1f (Seconds (ms * 1000000)) @ ''s'')"
    using formatDuration_in_range [of ms] by simp
  have 3: "formatDuration 90000 = ''1.5m''" by code_simp
  have 4: "formatDuration 3600000 = ''1.0h''" by code_simp
  have 5: "formatDuration 5000 = ''5.0s''" by code_simp
  from 1 2 Sprintf_1f_shape [of x] 3 4 5 show ?thesis by blast
qed

theorem formatDuration_units_witness:
  "0 < sint (125000 :: 64 word) \<and> sint (125000 :: 64 word) \<le> 9223372036854
   \<and> formatDuration 125000 = Sprintf_1f (Minutes 125000000000) @ ''m''
   \<and> formatDuration 125000 = ''2.1m''"
proof -
  have s: "sint (125000 :: 64 word) = 125000" by simp
  have v: "formatDuration 125000 = ''2.1m''" by code_simp
  from formatDuration_units [of 125000] s
  have "formatDuration 125000 = Sprintf_1f (Minutes (125000 * 1000000)) @ ''m''"
    by simp
  with s v show ?thesis by simp
qed

text \<open>
  C6 as stated fails beyond that bound: the nanoseconds of 9223372036855 milliseconds wrap
  around to a negative \<^verbatim>\<open>int64\<close>, and the duration, far above an hour, is rendered in
  seconds with a minus sign.
\<close>

theorem formatDuration_overflow_counterexample:
  "0 < sint (9223372036855 :: 64 word) \<and> 3600000 \<le> sint (9223372036855 :: 64 word)
   \<and> formatDuration 9223372036855 = ''-9223372036.9s''"
proof -
  have "formatDuration 9223372036855 = ''-9223372036.9s''" by code_simp
  then show ?thesis by simp
qed

text \<open>
  C10, as the code has it: a negative duration of at least \<open>-9223372036854\<close> milliseconds
  is never rendered as \<^verbatim>\<open>N/A\<close>, in hours or in minutes: it is rendered in seconds, with a
  minus sign, one digit after the point and the suffix \<^verbatim>\<open>s\<close>.
\<close>

theorem formatDuration_negative:
  "(sint ms < 0 \<and> - 9223372036854 \<le> sint ms \<longrightarrow>
      formatDuration ms = Sprintf_1f (Seconds (ms * 1000000)) @ ''s''
      \<and> formatDuration ms \<noteq> ''N/A''
      \<and> hd (formatDuration ms) = CHR ''-'')
   \<and> formatDuration (- 5000) = ''-5.0s''"
proof -
  have 1: "formatDuration ms = Sprintf_1f (Seconds (ms * 1000000)) @ ''s''
      \<and> formatDuration ms \<noteq> ''N/A''
      \<and> hd (formatDuration ms) = CHR ''-''"
    if a: "sint ms < 0" and b: "- 9223372036854 \<le> sint ms"
  proof -
    from a b have f: "formatDuration ms = Sprintf_1f (Seconds (ms * 1000000)) @ ''s''"
      using formatDuration_in_range [of ms] by simp
    have d: "sint (ms * 1000000) = sint ms * 1000000"
      using a b by (intro sint_millis) simp_all
    with a have "Seconds (ms * 1000000) < 0" by (intro Seconds_neg) simp
    then have h: "hd (Sprintf_1f (Seconds (ms * 1000000)) @ ''s'') = CHR ''-''"
      by (simp add: Sprintf_1f_def Let_def)
    have "last (formatDuration ms) = CHR ''s''" by (simp add: f)
    then have "formatDuration ms \<noteq> ''N/A''" by auto
    with f h show ?thesis by simp
  qed
  have 2: "formatDuration (- 5000) = ''-5.0s''" by code_simp
  from 1 2 show ?thesis by blast
qed

theorem formatDuration_negative_witness:
  "sint (- 1500 :: 64 word) < 0 \<and> - 9223372036854 \<le> sint (- 1500 :: 64 word)
   \<and> formatDuration (- 1500) = Sprintf_1f (Seconds (- 1500000000)) @ ''s''
   \<and> formatDuration (- 1500) = ''-1.5s''"
proof -
  have s: "sint (- 1500 :: 64 word) = - 1500" by simp
  have v: "formatDuration (- 1500) = ''-1.5s''" by code_simp
  from formatDuration_negative [of "- 1500"] s
  have "formatDuration (- 1500) = Sprintf_1f (Seconds (- 1500 * 1000000)) @ ''s''"
    by simp
  with s v show ?thesis by simp
qed

text \<open>
  C10 as stated fails below that bound: the nanoseconds of \<open>-9223372036855\<close> milliseconds
  wrap around to a positive \<^verbatim>\<open>int64\<close>, and the negative duration is rendered in hours.
\<close>

theorem formatDuration_negative_overflow_counterexample:
  "sint (- 9223372036855 :: 64 word) < 0
   \<and> formatDuration (- 9223372036855) = ''2562047.8h''"
proof -
  have "formatDuration (- 9223372036855) = ''2562047.8h''" by code_simp
  then show ?thesis by simp
qed

end
